theory Spec2Isabelle
  imports Main "HOL-Library.Char_ord"
begin

section \<open>Characters and strings of the extractor\<close>

text \<open>
  The extractor (\<^verbatim>\<open>process_pdf.py\<close>, class \<^verbatim>\<open>PDFOutlineExtractor\<close>) works on
  Python \<^verbatim>\<open>str\<close> values. A \<^typ>\<open>char\<close> stands for the code point of the same number
  (0 to 255), and every character class below is Python 3's classification of these
  code points: \<^verbatim>\<open>str.isspace\<close> (also what \<^verbatim>\<open>str.strip()\<close> removes and what
  \<^verbatim>\<open>\s\<close> matches), \<^verbatim>\<open>\d\<close>, \<^verbatim>\<open>\w\<close> and \<^verbatim>\<open>str.islower\<close>.
\<close>

definition is_space :: "char \<Rightarrow> bool" where
  "is_space c \<longleftrightarrow>
     (CHR 0x09 \<le> c \<and> c \<le> CHR 0x0D) \<or> (CHR 0x1C \<le> c \<and> c \<le> CHR 0x20)
     \<or> c = CHR 0x85 \<or> c = CHR 0xA0"

definition is_digit :: "char \<Rightarrow> bool" where
  "is_digit c \<longleftrightarrow> CHR ''0'' \<le> c \<and> c \<le> CHR ''9''"

definition is_upper_az :: "char \<Rightarrow> bool" where
  "is_upper_az c \<longleftrightarrow> CHR ''A'' \<le> c \<and> c \<le> CHR ''Z''"

definition is_lower_az :: "char \<Rightarrow> bool" where
  "is_lower_az c \<longleftrightarrow> CHR ''a'' \<le> c \<and> c \<le> CHR ''z''"

definition is_word :: "char \<Rightarrow> bool" where
  "is_word c \<longleftrightarrow>
     is_digit c \<or> is_upper_az c \<or> is_lower_az c \<or> c = CHR ''_''
     \<or> c = CHR 0xAA \<or> c = CHR 0xB2 \<or> c = CHR 0xB3 \<or> c = CHR 0xB5
     \<or> c = CHR 0xB9 \<or> c = CHR 0xBA \<or> (CHR 0xBC \<le> c \<and> c \<le> CHR 0xBE)
     \<or> (CHR 0xC0 \<le> c \<and> c \<le> CHR 0xD6) \<or> (CHR 0xD8 \<le> c \<and> c \<le> CHR 0xF6)
     \<or> CHR 0xF8 \<le> c"

definition islower :: "char \<Rightarrow> bool" where
  "islower c \<longleftrightarrow>
     is_lower_az c \<or> c = CHR 0xAA \<or> c = CHR 0xB5 \<or> c = CHR 0xBA
     \<or> (CHR 0xDF \<le> c \<and> c \<le> CHR 0xF6) \<or> CHR 0xF8 \<le> c"

definition to_lower :: "char \<Rightarrow> char" where
  "to_lower c =
     (case map_of (zip ''ABCDEFGHIJKLMNOPQRSTUVWXYZ'' ''abcdefghijklmnopqrstuvwxyz'') c of
        None \<Rightarrow> c | Some l \<Rightarrow> l)"

text \<open>\<^verbatim>\<open>line.strip()\<close>: leading and trailing whitespace removed.\<close>

definition strip :: "string \<Rightarrow> string" where
  "strip s = rev (dropWhile is_space (rev (dropWhile is_space s)))"

text \<open>\<^verbatim>\<open>text.split('\n')\<close>: the segments between line feeds, at least one.\<close>

fun split_nl :: "string \<Rightarrow> string list" where
  "split_nl [] = [[]]"
| "split_nl (c # cs) =
     (if c = CHR 0x0A then [] # split_nl cs
      else (case split_nl cs of [] \<Rightarrow> [[c]] | l # ls \<Rightarrow> (c # l) # ls))"

text \<open>\<^verbatim>\<open>line.endswith(suf)\<close> and \<^verbatim>\<open>sub in line\<close>.\<close>

definition endswith :: "string \<Rightarrow> string \<Rightarrow> bool" where
  "endswith s suf \<longleftrightarrow> take (length suf) (rev s) = rev suf"

fun contains :: "string \<Rightarrow> string \<Rightarrow> bool" where
  "contains sub [] \<longleftrightarrow> sub = []"
| "contains sub (c # cs) \<longleftrightarrow> take (length sub) (c # cs) = sub \<or> contains sub cs"

section \<open>Regular expressions\<close>

text \<open>
  The patterns of the extractor use character classes, sequencing, \<^verbatim>\<open>?\<close>, \<^verbatim>\<open>*\<close>,
  \<^verbatim>\<open>+\<close>, counted repetition, \<^verbatim>\<open>$\<close> and one lookahead (\<open>Eps\<close> is the empty
  pattern). \<open>ms r s\<close> lists what can
  remain of \<open>s\<close> after \<open>r\<close> has consumed a prefix of it, one entry for each way the
  backtracking matcher can take; \<^verbatim>\<open>pattern.match(s)\<close> succeeds exactly when one way
  exists. \<^verbatim>\<open>match\<close> starts at the beginning of the string, which is all a leading
  \<^verbatim>\<open>^\<close> asks for, so \<^verbatim>\<open>^\<close> has no constructor. \<^verbatim>\<open>$\<close> holds at the end of the
  string and just before a line feed that ends the string.
\<close>

datatype rx =
    Cls "char \<Rightarrow> bool"
  | Seq rx rx
  | Opt rx
  | Star rx
  | Eol
  | Look rx
  | Eps

fun star_iter :: "(string \<Rightarrow> string list) \<Rightarrow> nat \<Rightarrow> string \<Rightarrow> string list" where
  "star_iter f 0 s = [s]"
| "star_iter f (Suc n) s =
     s # concat (map (star_iter f n) (filter (\<lambda>t. length t < length s) (f s)))"

primrec ms :: "rx \<Rightarrow> string \<Rightarrow> string list" where
  "ms (Cls p) s = (case s of [] \<Rightarrow> [] | c # cs \<Rightarrow> if p c then [cs] else [])"
| "ms (Seq a b) s = concat (map (ms b) (ms a s))"
| "ms (Opt a) s = ms a s @ [s]"
| "ms (Star a) s = star_iter (ms a) (length s) s"
| "ms Eol s = (if s = [] \<or> s = [CHR 0x0A] then [s] else [])"
| "ms (Look a) s = (if ms a s = [] then [] else [s])"
| "ms Eps s = [s]"

definition re_match :: "rx \<Rightarrow> string \<Rightarrow> bool" where
  "re_match r s \<longleftrightarrow> ms r s \<noteq> []"

definition Plus :: "rx \<Rightarrow> rx" where
  "Plus a = Seq a (Star a)"

text \<open>\<^verbatim>\<open>a{m,n}\<close> and \<^verbatim>\<open>a{m,}\<close>.\<close>

fun rep :: "rx \<Rightarrow> nat \<Rightarrow> nat \<Rightarrow> rx" where
  "rep a m n =
     (if m = 0 then (if n = 0 then Eps else Opt (Seq a (rep a 0 (n - 1))))
      else Seq a (rep a (m - 1) (n - 1)))"

fun rep_min :: "rx \<Rightarrow> nat \<Rightarrow> rx" where
  "rep_min a m = (if m = 0 then Star a else Seq a (rep_min a (m - 1)))"

declare rep.simps [simp del] rep_min.simps [simp del]

fun seqs :: "rx list \<Rightarrow> rx" where
  "seqs [] = Eps"
| "seqs [a] = a"
| "seqs (a # as) = Seq a (seqs as)"

definition Lit :: "char \<Rightarrow> rx" where
  "Lit l = Cls (\<lambda>c. c = l)"

definition Lit_i :: "char \<Rightarrow> rx" where
  \<comment> \<open>a lower-case letter under \<^verbatim>\<open>re.IGNORECASE\<close>\<close>
  "Lit_i l = Cls (\<lambda>c. to_lower c = l)"

definition lits_i :: "string \<Rightarrow> rx" where
  "lits_i w = seqs (map Lit_i w)"

definition any_char :: rx where
  \<comment> \<open>\<^verbatim>\<open>.\<close>: every character but the line feed\<close>
  "any_char = Cls (\<lambda>c. c \<noteq> CHR 0x0A)"

definition rx_digit :: rx where "rx_digit = Cls is_digit"
definition rx_space :: rx where "rx_space = Cls is_space"
definition rx_sep :: rx where "rx_sep = Cls (\<lambda>c. c = CHR ''-'' \<or> c = CHR ''/'')"

section \<open>The patterns of \<^verbatim>\<open>__init__\<close>\<close>

definition num_pat :: rx where
  \<comment> \<open>\<^verbatim>\<open>^\d+(\.\d+)*[\.\s]+.+\<close>\<close>
  "num_pat = seqs [Plus rx_digit, Star (Seq (Lit CHR ''.'') (Plus rx_digit)),
                   Plus (Cls (\<lambda>c. c = CHR ''.'' \<or> is_space c)), Plus any_char]"

definition up_class :: "char \<Rightarrow> bool" where
  \<comment> \<open>\<^verbatim>\<open>[A-Z0-9. ]\<close>\<close>
  "up_class c \<longleftrightarrow> is_upper_az c \<or> is_digit c \<or> c = CHR ''.'' \<or> c = CHR '' ''"

definition up_pat :: rx where
  \<comment> \<open>\<^verbatim>\<open>^(?=.*[A-Z])[A-Z0-9. ]+$\<close>\<close>
  "up_pat = seqs [Look (Seq (Star any_char) (Cls is_upper_az)), Plus (Cls up_class), Eol]"

definition title_class :: "char \<Rightarrow> bool" where
  \<comment> \<open>\<^verbatim>\<open>[a-zA-Z0-9 ,\-\:]\<close>\<close>
  "title_class c \<longleftrightarrow> is_lower_az c \<or> is_upper_az c \<or> is_digit c \<or> c = CHR '' ''
     \<or> c = CHR '','' \<or> c = CHR ''-'' \<or> c = CHR '':''"

definition title_pat :: rx where
  \<comment> \<open>\<^verbatim>\<open>^[A-Z][a-zA-Z0-9 ,\-\:]{4,}$\<close>\<close>
  "title_pat = seqs [Cls is_upper_az, rep_min (Cls title_class) 4, Eol]"

definition noise_date_dmy :: rx where
  \<comment> \<open>\<^verbatim>\<open>^\d{1,2}[-/]\d{1,2}[-/]\d{2,4}$\<close>\<close>
  "noise_date_dmy = seqs [rep rx_digit 1 2, rx_sep, rep rx_digit 1 2, rx_sep, rep rx_digit 2 4, Eol]"

definition noise_date_ymd :: rx where
  \<comment> \<open>\<^verbatim>\<open>^\d{4}[-/]\d{1,2}[-/]\d{1,2}$\<close>\<close>
  "noise_date_ymd = seqs [rep rx_digit 4 4, rx_sep, rep rx_digit 1 2, rx_sep, rep rx_digit 1 2, Eol]"

definition noise_page :: rx where
  \<comment> \<open>\<^verbatim>\<open>^page\s+\d+$\<close> with \<^verbatim>\<open>re.IGNORECASE\<close>\<close>
  "noise_page = seqs [lits_i ''page'', Plus rx_space, Plus rx_digit, Eol]"

definition noise_copyright :: rx where
  \<comment> \<open>\<^verbatim>\<open>^copyright.*$\<close> with \<^verbatim>\<open>re.IGNORECASE\<close>\<close>
  "noise_copyright = seqs [lits_i ''copyright'', Star any_char, Eol]"

definition noise_digits :: rx where
  \<comment> \<open>\<^verbatim>\<open>^\d+$\<close>\<close>
  "noise_digits = seqs [Plus rx_digit, Eol]"

definition noise_punct :: rx where
  \<comment> \<open>\<^verbatim>\<open>^[^\w\s]+$\<close>\<close>
  "noise_punct = seqs [Plus (Cls (\<lambda>c. \<not> is_word c \<and> \<not> is_space c)), Eol]"

definition noise_patterns :: "rx list" where
  "noise_patterns = [noise_date_dmy, noise_date_ymd, noise_page, noise_copyright,
                     noise_digits, noise_punct]"

section \<open>The extractor\<close>

text \<open>
  The only attribute that changes after \<^verbatim>\<open>__init__\<close> is \<^verbatim>\<open>_detected_title\<close>
  (\<^verbatim>\<open>None\<close> at first), so it is the state that the methods pass on.
\<close>

record extractor =
  detected_title :: "string option"

definition init :: extractor where
  "init = \<lparr>detected_title = None\<rparr>"

record HeadingRecord =
  level :: string
  htext :: string
  page :: int

record Outline =
  title :: string
  outline :: "HeadingRecord list"

datatype error = ValueError string

type_synonym pages = "(string \<times> int) list"

subsection \<open>\<^verbatim>\<open>is_noise\<close>\<close>

definition is_noise :: "string \<Rightarrow> bool" where
  "is_noise line0 =
     (let line = strip line0 in
      if length line < 3 then True
      else if list_ex (\<lambda>pattern. re_match pattern line) noise_patterns then True
      else False)"

subsection \<open>\<^verbatim>\<open>is_heading\<close>\<close>

text \<open>
  \<^verbatim>\<open>len(line) * 0.7\<close> is a product of binary64 numbers. The literal \<^verbatim>\<open>0.7\<close> is
  the double \<open>3152519739159347 / 2^52\<close>, the length is exact as a double, and the
  product is the exact product rounded to 53 significant bits, ties to even.
  \<open>times_0_7 n\<close> is that double in units of \<open>2^-52\<close>. Python compares an \<^verbatim>\<open>int\<close>
  with a \<^verbatim>\<open>float\<close> exactly.
\<close>

fun bit_length :: "nat \<Rightarrow> nat" where
  "bit_length n = (if n = 0 then 0 else Suc (bit_length (n div 2)))"

declare bit_length.simps [simp del]

definition round_53 :: "nat \<Rightarrow> nat" where
  "round_53 x =
     (let k = bit_length x - 53 in
      if k = 0 then x
      else let q = x div 2 ^ k; r = x mod 2 ^ k; h = 2 ^ (k - 1)
           in (if h < r \<or> (r = h \<and> odd q) then q + 1 else q) * 2 ^ k)"

definition times_0_7 :: "nat \<Rightarrow> nat" where
  "times_0_7 n = round_53 (n * 3152519739159347)"

definition gt_times_0_7 :: "nat \<Rightarrow> nat \<Rightarrow> bool" where
  \<comment> \<open>\<^verbatim>\<open>count > n * 0.7\<close>\<close>
  "gt_times_0_7 count n \<longleftrightarrow> times_0_7 n < count * 2 ^ 52"

definition is_heading :: "extractor \<Rightarrow> string \<Rightarrow> bool" where
  "is_heading self line0 =
     (let line = strip line0 in
      if is_noise line then False
      else if (case detected_title self of None \<Rightarrow> False
               | Some t \<Rightarrow> t \<noteq> [] \<and> line = t) then False
      else if length line > 100 then False
      else if contains ''. This is the content for section:'' line then False
      else if length line > 50 \<and> gt_times_0_7 (length (filter islower line)) (length line)
        then False
      else if list_ex (endswith line) [''.'', '','', '';'', ''!'', ''?'']
              \<and> \<not> endswith line ''...'' then False
      else if re_match num_pat line then True
      else if length line \<le> 100 \<and> re_match up_pat line then True
      else if re_match title_pat line then True
      else False)"

subsection \<open>\<^verbatim>\<open>determine_heading_level\<close>\<close>

definition level_h1_num :: rx where
  \<comment> \<open>\<^verbatim>\<open>^\d+\.\s+\<close>\<close>
  "level_h1_num = seqs [Plus rx_digit, Lit CHR ''.'', Plus rx_space]"

definition level_h2_num :: rx where
  \<comment> \<open>\<^verbatim>\<open>^\d+\.\d+\s+\<close>\<close>
  "level_h2_num = seqs [Plus rx_digit, Lit CHR ''.'', Plus rx_digit, Plus rx_space]"

definition determine_heading_level :: "string \<Rightarrow> string" where
  "determine_heading_level line0 =
     (let line = strip line0 in
      if re_match level_h1_num line \<or> (length line > 15 \<and> re_match up_pat line)
        then ''H1''
      else if re_match level_h2_num line \<or> (length line \<le> 15 \<and> re_match up_pat line)
              \<or> re_match title_pat line
        then ''H2''
      else ''H3'')"

subsection \<open>\<^verbatim>\<open>extract_headings\<close>\<close>

fun headings_of_lines :: "extractor \<Rightarrow> int \<Rightarrow> string list \<Rightarrow> HeadingRecord list" where
  "headings_of_lines self page_num [] = []"
| "headings_of_lines self page_num (line0 # lines) =
     (let line = strip line0 in
      if is_heading self line
      then \<lparr>level = determine_heading_level line, htext = line, page = page_num\<rparr>
             # headings_of_lines self page_num lines
      else headings_of_lines self page_num lines)"

fun extract_headings :: "extractor \<Rightarrow> pages \<Rightarrow> HeadingRecord list" where
  "extract_headings self [] = []"
| "extract_headings self ((text, page_num) # pages_text) =
     headings_of_lines self page_num (split_nl text) @ extract_headings self pages_text"

subsection \<open>Title resolution\<close>

text \<open>
  \<^verbatim>\<open>extract_title_from_metadata\<close> reads the file; its argument here is what the reader
  gives for \<^verbatim>\<open>reader.metadata.title\<close>: \<open>None\<close> when the file cannot be read, has no
  metadata or no title in it.
\<close>

definition extract_title_from_metadata :: "string option \<Rightarrow> string option" where
  "extract_title_from_metadata metadata_title =
     (case metadata_title of
        None \<Rightarrow> None
      | Some t \<Rightarrow>
          if t \<noteq> [] then
            (let title = strip t in
             if title \<noteq> [] \<and> length title > 2 then Some title else None)
          else None)"

fun first_title_line :: "string list \<Rightarrow> string option" where
  "first_title_line [] = None"
| "first_title_line (line0 # lines) =
     (let line = strip line0 in
      if line \<noteq> [] \<and> length line > 3 \<and> \<not> is_noise line then Some line
      else first_title_line lines)"

fun extract_title_from_content :: "pages \<Rightarrow> string" where
  "extract_title_from_content [] = ''Untitled Document''"
| "extract_title_from_content ((text, page_num) # pages_text) =
     (case first_title_line (split_nl text) of
        Some line \<Rightarrow> line
      | None \<Rightarrow> extract_title_from_content pages_text)"

subsection \<open>\<^verbatim>\<open>extract_outline\<close>\<close>

text \<open>
  \<open>pypdf2\<close> and \<open>pdfminer\<close> are what \<^verbatim>\<open>extract_text_pypdf2\<close> and
  \<^verbatim>\<open>extract_text_pdfminer\<close> return for the file (the empty list when they fail). The
  result is the value returned or the exception raised, with the extractor as the call
  leaves it.
\<close>

definition extract_outline ::
  "extractor \<Rightarrow> pages \<Rightarrow> pages \<Rightarrow> string option \<Rightarrow> (error + Outline) \<times> extractor" where
  "extract_outline self pypdf2 pdfminer metadata_title =
     (let pages_text = pypdf2;
          pages_text = (if pages_text = [] then pdfminer else pages_text)
      in if pages_text = [] then (Inl (ValueError ''Could not extract text from PDF''), self)
         else
           let title = extract_title_from_metadata metadata_title;
               title = (case title of
                          None \<Rightarrow> extract_title_from_content pages_text
                        | Some t \<Rightarrow> if t = [] then extract_title_from_content pages_text else t);
               self = self\<lparr>detected_title := Some title\<rparr>;
               headings = extract_headings self pages_text
           in (Inr \<lparr>title = title, outline = headings\<rparr>, self))"

section \<open>The specification's reading of the same operations\<close>

text \<open>
  The definitions of this section follow the words of the specification, not the code;
  the theorems below compare them with the definitions above.
\<close>

subsection \<open>Numbered forms (specification, section 8)\<close>

definition two_level_form :: rx where
  \<comment> \<open>\<^verbatim>\<open>^\d+\.\d+\s\<close>\<close>
  "two_level_form = seqs [Plus rx_digit, Lit CHR ''.'', Plus rx_digit, rx_space]"

definition three_level_form :: rx where
  \<comment> \<open>\<^verbatim>\<open>^\d+\.\d+\.\d+\<close>: three or more dot-separated digit groups\<close>
  "three_level_form = seqs [Plus rx_digit, Lit CHR ''.'', Plus rx_digit, Lit CHR ''.'', Plus rx_digit]"

subsection \<open>Noise Filter (specification, section 4.1)\<close>

definition digit_group :: "nat \<Rightarrow> nat \<Rightarrow> string \<Rightarrow> bool" where
  "digit_group lo hi ds \<longleftrightarrow> list_all is_digit ds \<and> lo \<le> length ds \<and> length ds \<le> hi"

definition date_sep :: "char \<Rightarrow> bool" where
  "date_sep c \<longleftrightarrow> c = CHR ''-'' \<or> c = CHR ''/''"

definition spec_numeric_date :: "string \<Rightarrow> bool" where
  "spec_numeric_date s \<longleftrightarrow>
     (\<exists>a x b y c. s = a @ x # b @ y # c \<and> date_sep x \<and> date_sep y \<and>
        (digit_group 1 2 a \<and> digit_group 1 2 b \<and> digit_group 2 4 c
         \<or> digit_group 4 4 a \<and> digit_group 1 2 b \<and> digit_group 1 2 c))"

definition spec_page_line :: "string \<Rightarrow> bool" where
  "spec_page_line s \<longleftrightarrow>
     (\<exists>p ws ds. s = p @ ws @ ds \<and> map to_lower p = ''page''
        \<and> ws \<noteq> [] \<and> list_all is_space ws \<and> ds \<noteq> [] \<and> list_all is_digit ds)"

definition spec_starts_copyright :: "string \<Rightarrow> bool" where
  "spec_starts_copyright s \<longleftrightarrow> map to_lower (take 9 s) = ''copyright''"

definition spec_entirely_digits :: "string \<Rightarrow> bool" where
  "spec_entirely_digits s \<longleftrightarrow> list_all is_digit s"

definition spec_punctuation_only :: "string \<Rightarrow> bool" where
  "spec_punctuation_only s \<longleftrightarrow> list_all (\<lambda>c. \<not> is_word c \<and> \<not> is_space c) s"

definition spec_is_noise :: "string \<Rightarrow> bool" where
  "spec_is_noise line \<longleftrightarrow>
     (let s = strip line in
      length s < 3 \<or> spec_numeric_date s \<or> spec_page_line s \<or> spec_starts_copyright s
      \<or> spec_entirely_digits s \<or> spec_punctuation_only s)"

subsection \<open>Line Classifier (specification, section 4.2)\<close>

definition spec_mostly_lowercase :: "string \<Rightarrow> bool" where
  \<comment> \<open>longer than 50 characters and more than 70 percent of them lower-case letters\<close>
  "spec_mostly_lowercase line \<longleftrightarrow>
     length line > 50 \<and> 7 * length line < 10 * length (filter islower line)"

definition spec_sentence_end :: "string \<Rightarrow> bool" where
  "spec_sentence_end line \<longleftrightarrow>
     line \<noteq> [] \<and> last line \<in> set ''.,;!?'' \<and> \<not> endswith line ''...''"

definition spec_is_heading :: "string option \<Rightarrow> string \<Rightarrow> bool" where
  "spec_is_heading resolved_title line \<longleftrightarrow>
     \<not> is_noise line \<and> resolved_title \<noteq> Some line \<and> length line \<le> 100
     \<and> \<not> contains ''. This is the content for section:'' line
     \<and> \<not> spec_mostly_lowercase line \<and> \<not> spec_sentence_end line
     \<and> (re_match num_pat line \<or> re_match up_pat line \<or> re_match title_pat line)"

definition floor_agrees :: "nat \<Rightarrow> bool" where
  \<comment> \<open>the double \<open>n * 0.7\<close> and the number \<open>7 n / 10\<close> have the same integer part, but at 90\<close>
  "floor_agrees n \<longleftrightarrow> times_0_7 n div 2 ^ 52 = (if n = 90 then 62 else 7 * n div 10)"

subsection \<open>Title Resolver (specification, section 4.4)\<close>

definition spec_lines :: "pages \<Rightarrow> string list" where
  \<comment> \<open>the trimmed lines in reading order: pages in order, lines in order\<close>
  "spec_lines pages_text = concat (map (\<lambda>(text, page_num). map strip (split_nl text)) pages_text)"

definition spec_content_title :: "pages \<Rightarrow> string" where
  "spec_content_title pages_text =
     (case find (\<lambda>line. line \<noteq> [] \<and> length line > 3 \<and> \<not> is_noise line) (spec_lines pages_text) of
        Some line \<Rightarrow> line
      | None \<Rightarrow> ''Untitled Document'')"

definition spec_resolve_title :: "string option \<Rightarrow> pages \<Rightarrow> string" where
  "spec_resolve_title metadata_title pages_text =
     (case metadata_title of
        Some t \<Rightarrow> if strip t \<noteq> [] \<and> length (strip t) > 2 then strip t
                  else spec_content_title pages_text
      | None \<Rightarrow> spec_content_title pages_text)"

subsection \<open>A sample document\<close>

text \<open>Two pages, used to run the definitions on a concrete input.\<close>

definition example_pages :: pages where
  "example_pages =
     [(''A Study of Outlines\<newline>1. Introduction\<newline>Page 12\<newline> A Study of Outlines \<newline>BACKGROUND'', 1),
      (''2.1 Methodology\<newline>It was a dark night.'', 2)]"

definition example_headings :: "HeadingRecord list" where
  "example_headings =
     [\<lparr>level = ''H1'', htext = ''1. Introduction'', page = 1\<rparr>,
      \<lparr>level = ''H2'', htext = ''BACKGROUND'', page = 1\<rparr>,
      \<lparr>level = ''H2'', htext = ''2.1 Methodology'', page = 2\<rparr>]"

text \<open>Two lines of 90 characters, with 63 and with 62 lower-case letters.\<close>

definition heading_90_63 :: string where
  "heading_90_63 =
     ''Evaluation of Rule Based Heading Detection on Scanned Technical Reports, Part 2: Results A''"

definition heading_90_62 :: string where
  "heading_90_62 =
     ''Evaluation Of Rule Based Heading Detection on Scanned Technical Reports, Part 2: Results A''"

section \<open>The matcher\<close>

text \<open>The fuel \<open>length s\<close> is enough: more of it changes nothing.\<close>

lemma star_iter_fuel:
  "length s \<le> n \<Longrightarrow> length s \<le> m \<Longrightarrow> star_iter f n s = star_iter f m s"
proof (induction n arbitrary: m s)
  case 0
  then show ?case by (cases m) simp_all
next
  case (Suc n)
  show ?case
  proof (cases m)
    case 0
    with Suc.prems show ?thesis by simp
  next
    case (Suc m')
    have "star_iter f n t = star_iter f m' t" if "t \<in> set (f s)" "length t < length s" for t
      using that Suc.prems \<open>m = Suc m'\<close> by (intro Suc.IH) simp_all
    then have "map (star_iter f n) (filter (\<lambda>t. length t < length s) (f s))
             = map (star_iter f m') (filter (\<lambda>t. length t < length s) (f s))"
      by (intro map_cong) simp_all
    with \<open>m = Suc m'\<close> show ?thesis by (simp del: map_eq_conv)
  qed
qed

lemma ms_Star_unfold:
  "ms (Star a) s = s # concat (map (ms (Star a)) (filter (\<lambda>t. length t < length s) (ms a s)))"
proof (cases s)
  case Nil
  then show ?thesis by simp
next
  case (Cons c cs)
  have "star_iter (ms a) (length cs) t = star_iter (ms a) (length t) t"
    if "length t < length s" for t
    using that Cons by (intro star_iter_fuel) simp_all
  then have "map (star_iter (ms a) (length cs)) (filter (\<lambda>t. length t < length s) (ms a s))
           = map (ms (Star a)) (filter (\<lambda>t. length t < length s) (ms a s))"
    by (intro map_cong) simp_all
  with Cons show ?thesis by (simp del: map_eq_conv)
qed

lemma ms_Star_Cls_Nil: "ms (Star (Cls p)) [] = [[]]"
  by simp

lemma ms_Star_Cls_Cons:
  "ms (Star (Cls p)) (c # cs) = (c # cs) # (if p c then ms (Star (Cls p)) cs else [])"
  by (subst ms_Star_unfold) simp

text \<open>What a pattern can leave of a string, construct by construct.\<close>

declare ms.simps [simp del]

lemma in_ms_Cls: "t \<in> set (ms (Cls p) s) \<longleftrightarrow> (\<exists>c. s = c # t \<and> p c)"
  by (cases s) (auto simp: ms.simps)

lemma in_ms_Seq: "t \<in> set (ms (Seq a b) s) \<longleftrightarrow> (\<exists>u. u \<in> set (ms a s) \<and> t \<in> set (ms b u))"
  by (auto simp: ms.simps)

lemma in_ms_Opt: "t \<in> set (ms (Opt a) s) \<longleftrightarrow> t = s \<or> t \<in> set (ms a s)"
  by (auto simp: ms.simps)

lemma in_ms_Eps: "t \<in> set (ms Eps s) \<longleftrightarrow> t = s"
  by (auto simp: ms.simps)

lemma in_ms_Eol: "t \<in> set (ms Eol s) \<longleftrightarrow> t = s \<and> (s = [] \<or> s = [CHR 0x0A])"
  by (auto simp: ms.simps)

lemma re_match_iff: "re_match r s \<longleftrightarrow> (\<exists>t. t \<in> set (ms r s))"
  by (cases "ms r s") (auto simp: re_match_def)

lemma in_ms_Look: "t \<in> set (ms (Look a) s) \<longleftrightarrow> t = s \<and> re_match a s"
  by (auto simp: ms.simps re_match_def)

lemma in_ms_Star_Cls:
  "t \<in> set (ms (Star (Cls p)) s) \<longleftrightarrow> (\<exists>ds. s = ds @ t \<and> list_all p ds)"
proof (induction s)
  case Nil
  then show ?case by (auto simp: ms_Star_Cls_Nil)
next
  case (Cons c cs)
  show ?case
  proof
    assume "t \<in> set (ms (Star (Cls p)) (c # cs))"
    then consider "t = c # cs" | "p c" "t \<in> set (ms (Star (Cls p)) cs)"
      by (auto simp: ms_Star_Cls_Cons split: if_splits)
    then show "\<exists>ds. c # cs = ds @ t \<and> list_all p ds"
    proof cases
      case 1
      then show ?thesis by (intro exI[of _ "[]"]) simp
    next
      case 2
      with Cons.IH obtain ds where "cs = ds @ t" "list_all p ds" by auto
      with 2 show ?thesis by (intro exI[of _ "c # ds"]) simp
    qed
  next
    assume "\<exists>ds. c # cs = ds @ t \<and> list_all p ds"
    then obtain ds where ds: "c # cs = ds @ t" "list_all p ds" by auto
    show "t \<in> set (ms (Star (Cls p)) (c # cs))"
    proof (cases ds)
      case Nil
      with ds have "t = c # cs" by simp
      then show ?thesis by (simp add: ms_Star_Cls_Cons)
    next
      case (Cons e es)
      with ds have "p c" "cs = es @ t" "list_all p es" by auto
      with Cons.IH show ?thesis by (auto simp: ms_Star_Cls_Cons)
    qed
  qed
qed

lemma in_ms_Plus_Cls:
  "t \<in> set (ms (Plus (Cls p)) s) \<longleftrightarrow> (\<exists>ds. ds \<noteq> [] \<and> s = ds @ t \<and> list_all p ds)"
proof
  assume "t \<in> set (ms (Plus (Cls p)) s)"
  then obtain c ds where "s = c # ds @ t" "p c" "list_all p ds"
    by (auto simp: Plus_def in_ms_Seq in_ms_Cls in_ms_Star_Cls)
  then show "\<exists>ds. ds \<noteq> [] \<and> s = ds @ t \<and> list_all p ds"
    by (intro exI[of _ "c # ds"]) simp
next
  assume "\<exists>ds. ds \<noteq> [] \<and> s = ds @ t \<and> list_all p ds"
  then obtain ds where "ds \<noteq> []" "s = ds @ t" "list_all p ds" by auto
  then show "t \<in> set (ms (Plus (Cls p)) s)"
    by (cases ds) (auto simp: Plus_def in_ms_Seq in_ms_Cls in_ms_Star_Cls)
qed

lemma in_ms_seqs_Cons:
  "t \<in> set (ms (seqs (a # as)) s) \<longleftrightarrow> (\<exists>u. u \<in> set (ms a s) \<and> t \<in> set (ms (seqs as) u))"
  by (cases as) (auto simp: in_ms_Seq in_ms_Eps)

lemma in_ms_rep_Cls:
  "m \<le> n \<Longrightarrow> t \<in> set (ms (rep (Cls p) m n) s)
     \<longleftrightarrow> (\<exists>ds. s = ds @ t \<and> list_all p ds \<and> m \<le> length ds \<and> length ds \<le> n)"
proof (induction "Cls p" m n arbitrary: s rule: rep.induct)
  case (1 m n)
  show ?case
  proof (cases "m = 0")
    case m0: True
    show ?thesis
    proof (cases "n = 0")
      case True
      with m0 show ?thesis by (subst rep.simps) (auto simp: in_ms_Eps)
    next
      case False
      have IH: "\<And>s. t \<in> set (ms (rep (Cls p) 0 (n - Suc 0)) s)
          \<longleftrightarrow> (\<exists>ds. s = ds @ t \<and> list_all p ds \<and> length ds \<le> n - Suc 0)"
        using "1.hyps"(1)[OF m0 False] by simp
      show ?thesis
      proof
        assume "t \<in> set (ms (rep (Cls p) m n) s)"
        then consider "t = s" | c ds where "s = c # ds @ t" "p c" "list_all p ds" "length ds \<le> n - Suc 0"
          using m0 False by (subst (asm) rep.simps) (auto simp: in_ms_Opt in_ms_Seq in_ms_Cls IH)
        then show "\<exists>ds. s = ds @ t \<and> list_all p ds \<and> m \<le> length ds \<and> length ds \<le> n"
        proof cases
          case 1
          with m0 show ?thesis by (intro exI[of _ "[]"]) simp
        next
          case 2
          with m0 False show ?thesis by (intro exI[of _ "c # ds"]) auto
        qed
      next
        assume "\<exists>ds. s = ds @ t \<and> list_all p ds \<and> m \<le> length ds \<and> length ds \<le> n"
        then obtain ds where ds: "s = ds @ t" "list_all p ds" "length ds \<le> n" by auto
        show "t \<in> set (ms (rep (Cls p) m n) s)"
        proof (cases ds)
          case Nil
          with ds m0 False show ?thesis by (subst rep.simps) (simp add: in_ms_Opt)
        next
          case (Cons e es)
          with ds have "p e" "list_all p es" "length es \<le> n - Suc 0" "s = e # es @ t" by auto
          with m0 False show ?thesis
            by (subst rep.simps) (auto simp: in_ms_Opt in_ms_Seq in_ms_Cls IH)
        qed
      qed
    qed
  next
    case False
    with "1.prems" have "m - 1 \<le> n - 1" by simp
    from "1.hyps"(2)[OF False this]
    have IH: "\<And>s. t \<in> set (ms (rep (Cls p) (m - Suc 0) (n - Suc 0)) s)
          \<longleftrightarrow> (\<exists>ds. s = ds @ t \<and> list_all p ds \<and> m - Suc 0 \<le> length ds \<and> length ds \<le> n - Suc 0)"
      by simp
    show ?thesis
    proof
      assume "t \<in> set (ms (rep (Cls p) m n) s)"
      then obtain c ds where "s = c # ds @ t" "p c" "list_all p ds" "m - Suc 0 \<le> length ds" "length ds \<le> n - Suc 0"
        using False by (subst (asm) rep.simps) (auto simp: in_ms_Seq in_ms_Cls IH)
      with False "1.prems" show "\<exists>ds. s = ds @ t \<and> list_all p ds \<and> m \<le> length ds \<and> length ds \<le> n"
        by (intro exI[of _ "c # ds"]) auto
    next
      assume "\<exists>ds. s = ds @ t \<and> list_all p ds \<and> m \<le> length ds \<and> length ds \<le> n"
      then obtain ds where ds: "s = ds @ t" "list_all p ds" "m \<le> length ds" "length ds \<le> n" by auto
      with False obtain e es where "ds = e # es" by (cases ds) auto
      with ds have "p e" "list_all p es" "m - Suc 0 \<le> length es" "length es \<le> n - Suc 0" "s = e # es @ t" by auto
      with False show "t \<in> set (ms (rep (Cls p) m n) s)"
        by (subst rep.simps) (auto simp: in_ms_Seq in_ms_Cls IH)
    qed
  qed
qed

lemma in_ms_rep_min_Cls:
  "t \<in> set (ms (rep_min (Cls p) m) s)
     \<longleftrightarrow> (\<exists>ds. s = ds @ t \<and> list_all p ds \<and> m \<le> length ds)"
proof (induction m arbitrary: s)
  case 0
  then show ?case by (subst rep_min.simps) (simp add: in_ms_Star_Cls)
next
  case (Suc m)
  show ?case
  proof
    assume "t \<in> set (ms (rep_min (Cls p) (Suc m)) s)"
    then obtain c ds where "s = c # ds @ t" "p c" "list_all p ds" "m \<le> length ds"
      by (subst (asm) rep_min.simps) (auto simp: in_ms_Seq in_ms_Cls Suc.IH)
    then show "\<exists>ds. s = ds @ t \<and> list_all p ds \<and> Suc m \<le> length ds"
      by (intro exI[of _ "c # ds"]) auto
  next
    assume "\<exists>ds. s = ds @ t \<and> list_all p ds \<and> Suc m \<le> length ds"
    then obtain ds where ds: "s = ds @ t" "list_all p ds" "Suc m \<le> length ds" by auto
    then obtain e es where "ds = e # es" by (cases ds) auto
    with ds have "p e" "list_all p es" "m \<le> length es" "s = e # es @ t" by auto
    then show "t \<in> set (ms (rep_min (Cls p) (Suc m)) s)"
      by (subst rep_min.simps) (auto simp: in_ms_Seq in_ms_Cls Suc.IH)
  qed
qed

lemma in_ms_lits_i:
  "t \<in> set (ms (lits_i w) s) \<longleftrightarrow> (\<exists>p. s = p @ t \<and> map to_lower p = w)"
  unfolding lits_i_def
proof (induction w arbitrary: s)
  case Nil
  then show ?case by (auto simp: in_ms_Eps)
next
  case (Cons l w)
  show ?case
  proof
    assume "t \<in> set (ms (seqs (map Lit_i (l # w))) s)"
    then obtain c p where "s = c # p @ t" "to_lower c = l" "map to_lower p = w"
      by (auto simp: in_ms_seqs_Cons Lit_i_def in_ms_Cls Cons.IH)
    then show "\<exists>p. s = p @ t \<and> map to_lower p = l # w"
      by (intro exI[of _ "c # p"]) simp
  next
    assume "\<exists>p. s = p @ t \<and> map to_lower p = l # w"
    then obtain c p where "s = c # p @ t" "to_lower c = l" "map to_lower p = w" by auto
    then show "t \<in> set (ms (seqs (map Lit_i (l # w))) s)"
      by (auto simp: in_ms_seqs_Cons Lit_i_def in_ms_Cls Cons.IH)
  qed
qed

section \<open>Evaluation on concrete inputs\<close>

lemmas rx_eval = re_match_def ms.simps rep.simps rep_min.simps Plus_def Lit_def Lit_i_def
  lits_i_def any_char_def rx_digit_def rx_space_def rx_sep_def num_pat_def up_pat_def title_pat_def
  noise_patterns_def noise_date_dmy_def noise_date_ymd_def noise_page_def noise_copyright_def
  noise_digits_def noise_punct_def level_h1_num_def level_h2_num_def two_level_form_def
  three_level_form_def

lemmas chr_eval = is_space_def is_digit_def is_upper_az_def is_lower_az_def is_word_def
  islower_def to_lower_def up_class_def title_class_def

lemmas py_eval = strip_def endswith_def is_noise_def is_heading_def determine_heading_level_def
  extract_outline_def extract_title_from_metadata_def gt_times_0_7_def times_0_7_def
  round_53_def bit_length.simps Let_def init_def

section \<open>Facts about the string operations\<close>

lemma strip_Nil: "strip [] = []"
  by (simp add: strip_def)

lemma strip_Nil_or_ends:
  "strip s = [] \<or> (\<not> is_space (hd (strip s)) \<and> \<not> is_space (last (strip s)))"
proof (cases "strip s = []")
  case True
  then show ?thesis by simp
next
  case False
  define u where "u = dropWhile is_space s"
  define v where "v = dropWhile is_space (rev u)"
  have sv: "strip s = rev v" by (simp add: strip_def u_def v_def)
  with False have v: "v \<noteq> []" by simp
  then have "\<not> is_space (hd v)" unfolding v_def by (rule hd_dropWhile)
  then have l: "\<not> is_space (last (strip s))" using v sv by (simp add: last_rev)
  from v have u: "u \<noteq> []" unfolding v_def by auto
  then have hu: "\<not> is_space (hd u)" unfolding u_def by (rule hd_dropWhile)
  have "last v = last (rev u)" using v unfolding v_def
    by (metis takeWhile_dropWhile_id last_appendR)
  then have "hd (strip s) = hd u" using u v sv by (simp add: hd_rev last_rev)
  with hu l show ?thesis by simp
qed

lemma strip_fixed: "s = [] \<or> (\<not> is_space (hd s) \<and> \<not> is_space (last s)) \<Longrightarrow> strip s = s"
proof (cases "s = []")
  case True
  then show ?thesis by (simp add: strip_def)
next
  case False
  assume "s = [] \<or> (\<not> is_space (hd s) \<and> \<not> is_space (last s))"
  with False have h: "\<not> is_space (hd s)" and l: "\<not> is_space (last s)" by auto
  from h False have 1: "dropWhile is_space s = s" by (cases s) auto
  from l False have "\<not> is_space (hd (rev s))" by (simp add: hd_rev)
  with False have 2: "dropWhile is_space (rev s) = rev s" by (cases "rev s") auto
  show ?thesis by (simp add: strip_def 1 2)
qed

lemma strip_strip: "strip (strip s) = strip s"
  using strip_Nil_or_ends[of s] by (intro strip_fixed)

lemma set_strip: "set (strip s) \<subseteq> set s"
proof -
  have "set (strip s) \<subseteq> set (dropWhile is_space s)"
    unfolding strip_def using set_dropWhileD by fastforce
  also have "\<dots> \<subseteq> set s" using set_dropWhileD by fastforce
  finally show ?thesis .
qed

text \<open>The lines that the extractor classifies come from \<open>split_nl\<close>: they hold no line feed.\<close>

lemma split_nl_no_newline: "l \<in> set (split_nl s) \<Longrightarrow> CHR 0x0A \<notin> set l"
  by (induction s arbitrary: l) (auto split: if_splits list.splits)

lemma endswith_single: "endswith s [c] \<longleftrightarrow> s \<noteq> [] \<and> last s = c"
  by (cases s rule: rev_cases) (simp_all add: endswith_def)

lemma sentence_end_code:
  "(list_ex (endswith line) [''.'', '','', '';'', ''!'', ''?''] \<and> \<not> endswith line ''...'')
     = spec_sentence_end line"
  by (auto simp: spec_sentence_end_def endswith_single)

lemma run_unique:
  assumes "list_all P a" "list_all P a'" "\<not> P x" "\<not> P x'" "a @ x # r = a' @ x' # r'"
  shows "a = a' \<and> x = x' \<and> r = r'"
proof -
  have "takeWhile P (a @ x # r) = a" using assms(1,3)
    by (simp add: takeWhile_tail list_all_iff)
  moreover have "takeWhile P (a' @ x' # r') = a'" using assms(2,4)
    by (simp add: takeWhile_tail list_all_iff)
  ultimately have "a = a'" using assms(5) by simp
  with assms(5) show ?thesis by simp
qed

lemma digit_not_space: "is_digit c \<Longrightarrow> \<not> is_space c"
  by (auto simp: is_digit_def is_space_def less_eq_char_def)

lemma digit_not_upper: "is_digit c \<Longrightarrow> \<not> is_upper_az c"
  by (auto simp: is_digit_def is_upper_az_def less_eq_char_def)

lemma dot_not_digit: "\<not> is_digit CHR ''.''"
  by (simp add: is_digit_def)

lemma dot_not_space: "\<not> is_space CHR ''.''"
  by (simp add: is_space_def)

section \<open>Building and taking apart matches\<close>

lemmas in_ms_simps = in_ms_Seq in_ms_Eps in_ms_Opt in_ms_Plus_Cls in_ms_Cls in_ms_Eol
  in_ms_rep_min_Cls in_ms_Star_Cls in_ms_Look in_ms_lits_i

lemma ms_Cls_I: "p c \<Longrightarrow> t \<in> set (ms (Cls p) (c # t))"
  by (simp add: in_ms_Cls)

lemma ms_Plus_Cls_I: "ds \<noteq> [] \<Longrightarrow> list_all p ds \<Longrightarrow> t \<in> set (ms (Plus (Cls p)) (ds @ t))"
  by (auto simp: in_ms_Plus_Cls)

lemma ms_Star_Cls_I: "list_all p ds \<Longrightarrow> t \<in> set (ms (Star (Cls p)) (ds @ t))"
  by (auto simp: in_ms_Star_Cls)

lemma ms_Eol_I: "[] \<in> set (ms Eol [])"
  by (simp add: in_ms_Eol)

lemma ms_Seq_Cls_I: "p c \<Longrightarrow> t \<in> set (ms b u) \<Longrightarrow> t \<in> set (ms (Seq (Cls p) b) (c # u))"
  by (auto simp: in_ms_Seq in_ms_Cls)

lemma ms_Seq_Plus_I:
  "ds \<noteq> [] \<Longrightarrow> list_all p ds \<Longrightarrow> t \<in> set (ms b u)
   \<Longrightarrow> t \<in> set (ms (Seq (Plus (Cls p)) b) (ds @ u))"
  by (auto simp: in_ms_Seq in_ms_Plus_Cls)

lemma ms_Seq_Star_I:
  "list_all p ds \<Longrightarrow> t \<in> set (ms b u) \<Longrightarrow> t \<in> set (ms (Seq (Star (Cls p)) b) (ds @ u))"
  by (auto simp: in_ms_Seq in_ms_Star_Cls)

lemmas ms_intros = ms_Seq_Cls_I ms_Seq_Plus_I ms_Seq_Star_I ms_Cls_I ms_Plus_Cls_I
  ms_Star_Cls_I ms_Eol_I

lemma level_h1_num_D:
  assumes "re_match level_h1_num s"
  obtains a ws r where "s = a @ CHR ''.'' # ws @ r" "a \<noteq> []" "list_all is_digit a"
    "ws \<noteq> []" "list_all is_space ws"
  using assms by (auto simp: re_match_iff level_h1_num_def in_ms_simps rx_digit_def rx_space_def Lit_def)

lemma level_h2_num_D:
  assumes "re_match level_h2_num s"
  obtains a b ws r where "s = a @ CHR ''.'' # b @ ws @ r" "a \<noteq> []" "list_all is_digit a"
    "b \<noteq> []" "list_all is_digit b" "ws \<noteq> []" "list_all is_space ws"
  using assms by (auto simp: re_match_iff level_h2_num_def in_ms_simps rx_digit_def rx_space_def Lit_def)

lemma level_h2_num_I:
  assumes "a \<noteq> []" "list_all is_digit a" "b \<noteq> []" "list_all is_digit b"
    "ws \<noteq> []" "list_all is_space ws"
  shows "re_match level_h2_num (a @ CHR ''.'' # b @ ws @ r)"
  unfolding re_match_iff level_h2_num_def rx_digit_def rx_space_def Lit_def seqs.simps
  using assms by (intro exI[of _ r] ms_intros) simp_all

lemma two_level_form_D:
  assumes "re_match two_level_form s"
  obtains a b w r where "s = a @ CHR ''.'' # b @ w # r" "a \<noteq> []" "list_all is_digit a"
    "b \<noteq> []" "list_all is_digit b" "is_space w"
  using assms by (auto simp: re_match_iff two_level_form_def in_ms_simps rx_digit_def rx_space_def Lit_def)

lemma three_level_form_D:
  assumes "re_match three_level_form s"
  obtains a b c r where "s = a @ CHR ''.'' # b @ CHR ''.'' # c @ r" "a \<noteq> []"
    "list_all is_digit a" "b \<noteq> []" "list_all is_digit b" "c \<noteq> []" "list_all is_digit c"
  using assms by (auto simp: re_match_iff three_level_form_def in_ms_simps rx_digit_def rx_space_def Lit_def)

lemma title_pat_head: "re_match title_pat s \<Longrightarrow> \<exists>c t. s = c # t \<and> is_upper_az c"
  by (auto simp: re_match_iff title_pat_def in_ms_simps)

lemma digits_then_dot_not_h1:
  assumes "a \<noteq> []" "list_all is_digit a" "b \<noteq> []" "list_all is_digit b"
  shows "\<not> re_match level_h1_num (a @ CHR ''.'' # b @ r)"
proof
  assume "re_match level_h1_num (a @ CHR ''.'' # b @ r)"
  then obtain a' ws r' where s: "a @ CHR ''.'' # b @ r = a' @ CHR ''.'' # ws @ r'"
    and a': "list_all is_digit a'" and ws: "ws \<noteq> []" "list_all is_space ws"
    by (rule level_h1_num_D)
  from run_unique[OF assms(2) a' dot_not_digit dot_not_digit s] have "b @ r = ws @ r'" by simp
  with assms(3) ws(1) have "hd b = hd ws" by (cases b; cases ws) auto
  moreover from assms(3,4) have "is_digit (hd b)" by (cases b) auto
  moreover from ws have "is_space (hd ws)" by (cases ws) auto
  ultimately show False using digit_not_space by auto
qed

section \<open>The Noise Filter and the Line Classifier\<close>

lemma is_noise_strip: "is_noise (strip s) = is_noise s"
  by (simp add: is_noise_def strip_strip)

lemma not_noise_length: "\<not> is_noise s \<Longrightarrow> 3 \<le> length (strip s)"
  by (auto simp: is_noise_def Let_def split: if_splits)

lemma is_heading_guards:
  assumes "is_heading self line"
  shows "\<not> is_noise (strip line)" and "length (strip line) \<le> 100"
    and "\<not> spec_sentence_end (strip line)"
    and "\<not> contains ''. This is the content for section:'' (strip line)"
    and "detected_title self = Some t \<Longrightarrow> t \<noteq> [] \<Longrightarrow> strip line \<noteq> t"
proof -
  from assms show "\<not> is_noise (strip line)"
    unfolding is_heading_def Let_def by (metis (full_types))
  from assms have "\<not> length (strip line) > 100"
    unfolding is_heading_def Let_def by (metis (full_types))
  then show "length (strip line) \<le> 100" by simp
  from assms have "\<not> (list_ex (endswith (strip line)) [''.'', '','', '';'', ''!'', ''?'']
      \<and> \<not> endswith (strip line) ''...'')"
    unfolding is_heading_def Let_def by (metis (full_types))
  then show "\<not> spec_sentence_end (strip line)" using sentence_end_code[of "strip line"] by blast
  from assms show "\<not> contains ''. This is the content for section:'' (strip line)"
    unfolding is_heading_def Let_def by (metis (full_types))
  from assms have "\<not> (case detected_title self of None \<Rightarrow> False
               | Some t \<Rightarrow> t \<noteq> [] \<and> strip line = t)"
    unfolding is_heading_def Let_def by (metis (full_types))
  then show "detected_title self = Some t \<Longrightarrow> t \<noteq> [] \<Longrightarrow> strip line \<noteq> t" by auto
qed

lemma ms_Seq_lits_I:
  "map to_lower p = w \<Longrightarrow> t \<in> set (ms b u) \<Longrightarrow> t \<in> set (ms (Seq (lits_i w) b) (p @ u))"
  by (auto simp: in_ms_Seq in_ms_lits_i)

lemma rx_sep_date_sep: "rx_sep = Cls date_sep"
  by (simp add: rx_sep_def date_sep_def[abs_def])

lemma in_ms_rep_digits:
  "m \<le> n \<Longrightarrow> t \<in> set (ms (rep rx_digit m n) s) \<longleftrightarrow> (\<exists>ds. s = ds @ t \<and> digit_group m n ds)"
  by (auto simp: rx_digit_def in_ms_rep_Cls digit_group_def)

lemma ms_Seq_digits_I:
  "m \<le> n \<Longrightarrow> digit_group m n ds \<Longrightarrow> t \<in> set (ms b u)
   \<Longrightarrow> t \<in> set (ms (Seq (rep rx_digit m n) b) (ds @ u))"
  by (auto simp: in_ms_Seq in_ms_rep_digits)

lemma in_ms_Eol_no_newline:
  "CHR 0x0A \<notin> set s \<Longrightarrow> t \<in> set (ms Eol s) \<longleftrightarrow> s = [] \<and> t = []"
  by (auto simp: in_ms_Eol)

lemma date_pattern_iff:
  assumes "CHR 0x0A \<notin> set s" "m1 \<le> n1" "m2 \<le> n2" "m3 \<le> n3"
  shows "re_match (seqs [rep rx_digit m1 n1, rx_sep, rep rx_digit m2 n2, rx_sep, rep rx_digit m3 n3, Eol]) s \<longleftrightarrow>
     (\<exists>a x b y c. s = a @ x # b @ y # c \<and> date_sep x \<and> date_sep y
        \<and> digit_group m1 n1 a \<and> digit_group m2 n2 b \<and> digit_group m3 n3 c)"
proof
  assume "re_match (seqs [rep rx_digit m1 n1, rx_sep, rep rx_digit m2 n2, rx_sep, rep rx_digit m3 n3, Eol]) s"
  then obtain t u1 u2 u3 u4 u5 where
    1: "u1 \<in> set (ms (rep rx_digit m1 n1) s)" and 2: "u2 \<in> set (ms (Cls date_sep) u1)"
    and 3: "u3 \<in> set (ms (rep rx_digit m2 n2) u2)" and 4: "u4 \<in> set (ms (Cls date_sep) u3)"
    and 5: "u5 \<in> set (ms (rep rx_digit m3 n3) u4)" and 6: "t \<in> set (ms Eol u5)"
    unfolding re_match_iff seqs.simps rx_sep_date_sep in_ms_Seq by blast
  from 1 assms obtain a where a: "s = a @ u1" "digit_group m1 n1 a"
    by (auto simp: in_ms_rep_digits)
  from 2 obtain x where x: "u1 = x # u2" "date_sep x" by (auto simp: in_ms_Cls)
  from 3 assms obtain b where b: "u2 = b @ u3" "digit_group m2 n2 b"
    by (auto simp: in_ms_rep_digits)
  from 4 obtain y where y: "u3 = y # u4" "date_sep y" by (auto simp: in_ms_Cls)
  from 5 assms obtain c where c: "u4 = c @ u5" "digit_group m3 n3 c"
    by (auto simp: in_ms_rep_digits)
  from assms(1) a x b y c have "CHR 0x0A \<notin> set u5" by simp
  with 6 have "u5 = []" by (simp add: in_ms_Eol_no_newline)
  with a x b y c have "s = a @ x # b @ y # c" by simp
  with a x b y c show "\<exists>a x b y c. s = a @ x # b @ y # c \<and> date_sep x \<and> date_sep y
        \<and> digit_group m1 n1 a \<and> digit_group m2 n2 b \<and> digit_group m3 n3 c" by blast
next
  assume "\<exists>a x b y c. s = a @ x # b @ y # c \<and> date_sep x \<and> date_sep y
        \<and> digit_group m1 n1 a \<and> digit_group m2 n2 b \<and> digit_group m3 n3 c"
  then obtain a x b y c where s: "s = a @ x # b @ y # c @ []" and g: "date_sep x" "date_sep y"
    "digit_group m1 n1 a" "digit_group m2 n2 b" "digit_group m3 n3 c" by auto
  show "re_match (seqs [rep rx_digit m1 n1, rx_sep, rep rx_digit m2 n2, rx_sep, rep rx_digit m3 n3, Eol]) s"
    unfolding re_match_iff rx_sep_date_sep seqs.simps s
    using g assms(2-) by (intro exI[of _ "[]"] ms_Seq_digits_I ms_Seq_Cls_I ms_Eol_I)
qed

lemma noise_dates_iff:
  assumes "CHR 0x0A \<notin> set s"
  shows "(re_match noise_date_dmy s \<or> re_match noise_date_ymd s) = spec_numeric_date s"
proof -
  have 1: "re_match noise_date_dmy s \<longleftrightarrow>
     (\<exists>a x b y c. s = a @ x # b @ y # c \<and> date_sep x \<and> date_sep y
        \<and> digit_group 1 2 a \<and> digit_group 1 2 b \<and> digit_group 2 4 c)"
    unfolding noise_date_dmy_def by (rule date_pattern_iff[OF assms]) simp_all
  have 2: "re_match noise_date_ymd s \<longleftrightarrow>
     (\<exists>a x b y c. s = a @ x # b @ y # c \<and> date_sep x \<and> date_sep y
        \<and> digit_group 4 4 a \<and> digit_group 1 2 b \<and> digit_group 1 2 c)"
    unfolding noise_date_ymd_def by (rule date_pattern_iff[OF assms]) simp_all
  show ?thesis unfolding 1 2 spec_numeric_date_def by blast
qed

lemma noise_page_iff:
  assumes "CHR 0x0A \<notin> set s"
  shows "re_match noise_page s \<longleftrightarrow> spec_page_line s"
proof
  assume "re_match noise_page s"
  then obtain t u1 u2 u3 where
    1: "u1 \<in> set (ms (lits_i ''page'') s)" and 2: "u2 \<in> set (ms (Plus (Cls is_space)) u1)"
    and 3: "u3 \<in> set (ms (Plus (Cls is_digit)) u2)" and 6: "t \<in> set (ms Eol u3)"
    unfolding re_match_iff noise_page_def seqs.simps rx_digit_def rx_space_def in_ms_Seq by iprover
  from 1 obtain p where p: "s = p @ u1" "map to_lower p = ''page''"
    unfolding in_ms_lits_i by iprover
  from 2 obtain ws where ws: "u1 = ws @ u2" "ws \<noteq> []" "list_all is_space ws"
    unfolding in_ms_Plus_Cls by iprover
  from 3 obtain ds where ds: "u2 = ds @ u3" "ds \<noteq> []" "list_all is_digit ds"
    unfolding in_ms_Plus_Cls by iprover
  from assms p(1) ws(1) ds(1) have "CHR 0x0A \<notin> set u3" by simp
  with 6 have "u3 = []" by (simp add: in_ms_Eol_no_newline)
  with p(1) ws(1) ds(1) have "s = p @ ws @ ds" by simp
  with p(2) ws(2,3) ds(2,3) show "spec_page_line s" unfolding spec_page_line_def by iprover
next
  assume "spec_page_line s"
  then obtain p ws ds where s: "s = p @ ws @ ds" and g: "map to_lower p = ''page''"
    "ws \<noteq> []" "list_all is_space ws" "ds \<noteq> []" "list_all is_digit ds"
    unfolding spec_page_line_def by iprover
  from g have "[] \<in> set (ms (Seq (lits_i ''page'') (Seq (Plus (Cls is_space))
      (Seq (Plus (Cls is_digit)) Eol))) (p @ ws @ ds @ []))"
    by (intro ms_Seq_lits_I ms_Seq_Plus_I ms_Eol_I)
  with s show "re_match noise_page s"
    unfolding re_match_iff noise_page_def rx_digit_def rx_space_def seqs.simps
    by (intro exI[of _ "[]"]) simp
qed

lemma noise_copyright_iff:
  assumes "CHR 0x0A \<notin> set s"
  shows "re_match noise_copyright s \<longleftrightarrow> spec_starts_copyright s"
proof
  assume "re_match noise_copyright s"
  then obtain t u1 where "u1 \<in> set (ms (lits_i ''copyright'') s)"
    unfolding re_match_iff noise_copyright_def seqs.simps in_ms_Seq by iprover
  then obtain p where p: "s = p @ u1" "map to_lower p = ''copyright''"
    unfolding in_ms_lits_i by iprover
  from p(2) have "length (map to_lower p) = length ''copyright''" by (simp only:)
  then have "length p = 9" by simp
  with p show "spec_starts_copyright s" by (simp add: spec_starts_copyright_def)
next
  assume c: "spec_starts_copyright s"
  from assms have "list_all (\<lambda>c. c \<noteq> CHR 0x0A) (drop 9 s)"
    by (auto simp: list_all_iff dest: in_set_dropD)
  with c have "[] \<in> set (ms (Seq (lits_i ''copyright'') (Seq (Star (Cls (\<lambda>c. c \<noteq> CHR 0x0A))) Eol))
      (take 9 s @ drop 9 s @ []))"
    unfolding spec_starts_copyright_def by (intro ms_Seq_lits_I ms_Seq_Star_I ms_Eol_I)
  then show "re_match noise_copyright s"
    unfolding re_match_iff noise_copyright_def any_char_def seqs.simps
    by (intro exI[of _ "[]"]) simp
qed

lemma noise_digits_iff:
  assumes "CHR 0x0A \<notin> set s"
  shows "re_match noise_digits s \<longleftrightarrow> s \<noteq> [] \<and> list_all is_digit s"
proof
  assume "re_match noise_digits s"
  then obtain ds t where "s = ds @ t" "t = [] \<or> t = [CHR 0x0A]" "ds \<noteq> []" "list_all is_digit ds"
    by (auto simp: re_match_iff noise_digits_def in_ms_simps rx_digit_def)
  with assms show "s \<noteq> [] \<and> list_all is_digit s" by auto
next
  assume g: "s \<noteq> [] \<and> list_all is_digit s"
  have s: "s = s @ []" by simp
  from g show "re_match noise_digits s"
    unfolding re_match_iff noise_digits_def rx_digit_def seqs.simps
    by (subst s, intro exI[of _ "[]"] ms_Seq_Plus_I ms_Eol_I) simp_all
qed

lemma noise_punct_iff:
  assumes "CHR 0x0A \<notin> set s"
  shows "re_match noise_punct s \<longleftrightarrow> s \<noteq> [] \<and> list_all (\<lambda>c. \<not> is_word c \<and> \<not> is_space c) s"
proof
  assume "re_match noise_punct s"
  then obtain ds t where "s = ds @ t" "t = [] \<or> t = [CHR 0x0A]" "ds \<noteq> []"
    "list_all (\<lambda>c. \<not> is_word c \<and> \<not> is_space c) ds"
    by (auto simp: re_match_iff noise_punct_def in_ms_simps)
  with assms show "s \<noteq> [] \<and> list_all (\<lambda>c. \<not> is_word c \<and> \<not> is_space c) s" by auto
next
  assume g: "s \<noteq> [] \<and> list_all (\<lambda>c. \<not> is_word c \<and> \<not> is_space c) s"
  have s: "s = s @ []" by simp
  from g show "re_match noise_punct s"
    unfolding re_match_iff noise_punct_def seqs.simps
    by (subst s, intro exI[of _ "[]"] ms_Seq_Plus_I ms_Eol_I) simp_all
qed

text \<open>
  Claim C6. For a line (a segment between line feeds, so with no line feed in it),
  \<^verbatim>\<open>is_noise\<close> holds exactly when the trimmed line is shorter than 3 characters, is a
  numeric date of one of the two forms, is \<^verbatim>\<open>page\<close> in any case followed by
  whitespace and digits, starts with \<^verbatim>\<open>copyright\<close> in any case, is all digits, or
  has neither a word character nor whitespace. \<^verbatim>\<open>is_noise\<close> reads no state and
  changes none: it is a function of the line.
\<close>

theorem is_noise_rules:
  assumes "CHR 0x0A \<notin> set line"
  shows "is_noise line = spec_is_noise line"
proof -
  let ?s = "strip line"
  from assms set_strip[of line] have nl: "CHR 0x0A \<notin> set ?s" by auto
  note dates = noise_dates_iff[OF nl]
  have "is_noise line \<longleftrightarrow> length ?s < 3
      \<or> (re_match noise_date_dmy ?s \<or> re_match noise_date_ymd ?s) \<or> re_match noise_page ?s
      \<or> re_match noise_copyright ?s \<or> re_match noise_digits ?s \<or> re_match noise_punct ?s"
    by (auto simp: is_noise_def Let_def noise_patterns_def)
  also have "\<dots> \<longleftrightarrow> length ?s < 3 \<or> spec_numeric_date ?s \<or> spec_page_line ?s
      \<or> spec_starts_copyright ?s \<or> spec_entirely_digits ?s \<or> spec_punctuation_only ?s"
    unfolding dates noise_page_iff[OF nl] noise_copyright_iff[OF nl] noise_digits_iff[OF nl]
      noise_punct_iff[OF nl] spec_entirely_digits_def spec_punctuation_only_def
    by (cases "?s = []") auto
  finally show ?thesis by (simp add: spec_is_noise_def Let_def)
qed

theorem is_noise_rules_witness:
  "CHR 0x0A \<notin> set ''  Page 12 '' \<and> is_noise ''  Page 12 '' \<and> spec_is_noise ''  Page 12 ''
   \<and> CHR 0x0A \<notin> set ''Introduction'' \<and> \<not> is_noise ''Introduction''
   \<and> \<not> spec_is_noise ''Introduction''"
proof -
  have 1: "CHR 0x0A \<notin> set ''  Page 12 ''" by simp
  have 2: "CHR 0x0A \<notin> set ''Introduction''" by simp
  have 3: "is_noise ''  Page 12 ''" by (simp add: rx_eval chr_eval py_eval)
  have 4: "\<not> is_noise ''Introduction''" by (simp add: rx_eval chr_eval py_eval)
  from is_noise_rules [OF 1] is_noise_rules [OF 2] 1 2 3 4 show ?thesis by simp
qed

text \<open>
  Claim C5. A line that \<^verbatim>\<open>is_noise\<close> accepts is rejected by \<^verbatim>\<open>is_heading\<close>,
  whatever title the extractor holds.
\<close>

theorem noise_is_never_heading: "is_noise line \<Longrightarrow> \<not> is_heading self line"
  by (simp add: is_heading_def Let_def is_noise_strip)

theorem noise_is_never_heading_witness:
  "is_noise ''Page 12'' \<and> \<not> is_heading \<lparr>detected_title = Some ''Report''\<rparr> ''Page 12''"
proof -
  have n: "is_noise ''Page 12''"
    by (simp add: rx_eval chr_eval py_eval)
  from n noise_is_never_heading [OF n] show ?thesis by simp
qed

subsection \<open>The lower-case guard\<close>

lemma times_0_7_table: "list_all floor_agrees [51..<101]"
  by (simp add: floor_agrees_def times_0_7_def round_53_def bit_length.simps Let_def)

lemma gt_times_0_7_iff:
  assumes "50 < n" "n \<le> 100"
  shows "gt_times_0_7 c n \<longleftrightarrow> 7 * n < 10 * c \<or> (n = 90 \<and> c = 63)"
proof -
  from assms have "n \<in> {51..<101}" by simp
  then have "n \<in> set [51..<101]" by (simp only: set_upt)
  with times_0_7_table have "floor_agrees n" unfolding list_all_iff by (rule bspec)
  then have t: "times_0_7 n div 2 ^ 52 = (if n = 90 then 62 else 7 * n div 10)"
    by (simp only: floor_agrees_def)
  have "gt_times_0_7 c n \<longleftrightarrow> times_0_7 n div 2 ^ 52 < c"
    unfolding gt_times_0_7_def by (simp add: div_less_iff_less_mult)
  also have "\<dots> \<longleftrightarrow> 7 * n < 10 * c \<or> (n = 90 \<and> c = 63)"
    unfolding t by (cases "n = 90") auto
  finally show ?thesis .
qed

lemma if_chain:
  "(if a then False else if b then False else if c then False else if g1 then False
    else if e then False else if f then False else if g then True else if h then True
    else if i then True else False)
   \<longleftrightarrow> (\<not> a \<and> \<not> b \<and> \<not> c \<and> \<not> g1 \<and> \<not> e \<and> \<not> f \<and> (g \<or> h \<or> i))"
  by simp

lemma is_heading_conj:
  "is_heading self line0 \<longleftrightarrow>
     (\<not> is_noise (strip line0)
      \<and> \<not> (case detected_title self of None \<Rightarrow> False | Some t \<Rightarrow> t \<noteq> [] \<and> strip line0 = t)
      \<and> \<not> length (strip line0) > 100
      \<and> \<not> contains ''. This is the content for section:'' (strip line0)
      \<and> \<not> (length (strip line0) > 50
             \<and> gt_times_0_7 (length (filter islower (strip line0))) (length (strip line0)))
      \<and> \<not> (list_ex (endswith (strip line0)) [''.'', '','', '';'', ''!'', ''?'']
              \<and> \<not> endswith (strip line0) ''...'')
      \<and> (re_match num_pat (strip line0)
          \<or> (length (strip line0) \<le> 100 \<and> re_match up_pat (strip line0))
          \<or> re_match title_pat (strip line0)))"
  unfolding is_heading_def Let_def by (rule if_chain)

text \<open>
  Claim C3. \<^verbatim>\<open>is_heading\<close> should hold exactly when the guards hold and one of the
  three patterns matches, the lower-case guard rejecting a line longer than 50
  characters with more than 70 percent lower-case letters. The code compares the count
  with the double \<^verbatim>\<open>len(line) * 0.7\<close>, which at length 90 is
  \<open>62.99999999999999\<close>: this line of 90 characters has 63 lower-case letters, exactly
  70 percent, passes every guard as the claim words them and matches the title-case
  pattern, and \<^verbatim>\<open>is_heading\<close> rejects it.
\<close>

theorem is_heading_rejects_exactly_70_percent:
  "strip heading_90_63 = heading_90_63 \<and> length heading_90_63 = 90
   \<and> length (filter islower heading_90_63) = 63
   \<and> spec_is_heading None heading_90_63 \<and> \<not> is_heading init heading_90_63"
proof -
  have s: "strip heading_90_63 = heading_90_63"
    by (simp add: heading_90_63_def strip_def chr_eval)
  have l: "length heading_90_63 = 90" by (simp add: heading_90_63_def)
  have c: "length (filter islower heading_90_63) = 63"
    by (simp add: heading_90_63_def chr_eval)
  have n: "\<not> is_noise heading_90_63"
    by (simp add: heading_90_63_def rx_eval chr_eval py_eval)
  have m: "\<not> contains ''. This is the content for section:'' heading_90_63"
    by (simp add: heading_90_63_def)
  have e: "\<not> spec_sentence_end heading_90_63"
    by (simp add: heading_90_63_def spec_sentence_end_def)
  have t: "re_match title_pat heading_90_63"
    by (simp add: heading_90_63_def rx_eval chr_eval)
  have g: "gt_times_0_7 63 90"
    by (simp add: gt_times_0_7_def times_0_7_def round_53_def bit_length.simps Let_def)
  have spec: "spec_is_heading None heading_90_63"
    using n m e t l c by (simp add: spec_is_heading_def spec_mostly_lowercase_def)
  have code: "\<not> is_heading init heading_90_63"
    using g l c unfolding is_heading_conj s by simp
  from s l c spec code show ?thesis by simp
qed

text \<open>
  At every other trimmed line the code and the claim's list of guards agree: the
  rounding of \<^verbatim>\<open>len(line) * 0.7\<close> shows at length 90 with 63 lower-case letters only.
\<close>

lemma is_heading_spec_except_90_63:
  assumes "strip line = line"
    and "\<not> (length line = 90 \<and> length (filter islower line) = 63)"
  shows "is_heading self line = spec_is_heading (detected_title self) line"
proof (cases "is_noise line")
  case True
  then show ?thesis unfolding is_heading_conj spec_is_heading_def assms(1) by iprover
next
  case False
  with not_noise_length[of line] assms(1) have ne: "line \<noteq> []" by auto
  have title: "(case detected_title self of None \<Rightarrow> False | Some t \<Rightarrow> t \<noteq> [] \<and> line = t)
      \<longleftrightarrow> detected_title self = Some line"
    using ne by (auto split: option.splits)
  have low: "(length line > 50 \<and> gt_times_0_7 (length (filter islower line)) (length line))
      \<longleftrightarrow> spec_mostly_lowercase line" if "length line \<le> 100"
    using that assms(2) gt_times_0_7_iff[of "length line" "length (filter islower line)"]
    by (auto simp: spec_mostly_lowercase_def)
  define N where "N = is_noise line"
  define T where "T = (detected_title self = Some line)"
  define L where "L = (length line \<le> 100)"
  define C where "C = contains ''. This is the content for section:'' line"
  define M where "M = spec_mostly_lowercase line"
  define S where "S = spec_sentence_end line"
  define P1 where "P1 = re_match num_pat line"
  define P2 where "P2 = re_match up_pat line"
  define P3 where "P3 = re_match title_pat line"
  define G where "G = (length line > 50 \<and> gt_times_0_7 (length (filter islower line)) (length line))"
  have GM: "L \<Longrightarrow> G = M" unfolding L_def G_def M_def by (rule low)
  have 1: "is_heading self line \<longleftrightarrow> (\<not> N \<and> \<not> T \<and> L \<and> \<not> C \<and> \<not> G \<and> \<not> S \<and> (P1 \<or> (L \<and> P2) \<or> P3))"
    unfolding is_heading_conj assms(1) title sentence_end_code N_def T_def L_def C_def G_def
      S_def P1_def P2_def P3_def by (simp only: not_less)
  have 2: "spec_is_heading (detected_title self) line
      \<longleftrightarrow> (\<not> N \<and> \<not> T \<and> L \<and> \<not> C \<and> \<not> M \<and> \<not> S \<and> (P1 \<or> P2 \<or> P3))"
    unfolding spec_is_heading_def N_def T_def L_def C_def M_def S_def P1_def P2_def P3_def
    by (rule refl)
  show ?thesis unfolding 1 2 using GM by blast
qed

lemma is_heading_spec_except_90_62_example:
  "strip heading_90_62 = heading_90_62 \<and> length heading_90_62 = 90
   \<and> length (filter islower heading_90_62) = 62
   \<and> is_heading init heading_90_62 \<and> spec_is_heading None heading_90_62"
proof -
  have s: "strip heading_90_62 = heading_90_62"
    by (simp add: heading_90_62_def strip_def chr_eval)
  have l: "length heading_90_62 = 90" by (simp add: heading_90_62_def)
  have c: "length (filter islower heading_90_62) = 62"
    by (simp add: heading_90_62_def chr_eval)
  from l c have h: "\<not> (length heading_90_62 = 90 \<and> length (filter islower heading_90_62) = 63)"
    by simp
  have n: "\<not> is_noise heading_90_62"
    by (simp add: heading_90_62_def rx_eval chr_eval py_eval)
  have m: "\<not> contains ''. This is the content for section:'' heading_90_62"
    by (simp add: heading_90_62_def)
  have e: "\<not> spec_sentence_end heading_90_62"
    by (simp add: heading_90_62_def spec_sentence_end_def)
  have t: "re_match title_pat heading_90_62"
    by (simp add: heading_90_62_def rx_eval chr_eval)
  have spec: "spec_is_heading None heading_90_62"
    using n m e t l c by (simp add: spec_is_heading_def spec_mostly_lowercase_def)
  from is_heading_spec_except_90_63 [OF s h, of init] spec s l c show ?thesis
    by (simp add: init_def)
qed

section \<open>The Level Assigner\<close>

lemma determine_heading_level_range:
  "determine_heading_level line \<in> {''H1'', ''H2'', ''H3''}"
  by (simp add: determine_heading_level_def Let_def)

text \<open>
  Claim C1, as amended. A line whose trimmed form matches \<^verbatim>\<open>^\d+\.\d+\s\<close> gets
  \<^verbatim>\<open>H2\<close>, unless it is longer than 15 characters and matches the all-caps pattern:
  the test for \<^verbatim>\<open>H1\<close> comes first, and the all-caps pattern admits digits, periods
  and spaces.
\<close>

theorem two_level_numbered_is_H2:
  assumes "re_match two_level_form (strip line)"
    and "\<not> (15 < length (strip line) \<and> re_match up_pat (strip line))"
  shows "determine_heading_level line = ''H2''"
proof -
  from assms(1) obtain a b w r where s: "strip line = a @ CHR ''.'' # b @ w # r"
    and a: "a \<noteq> []" "list_all is_digit a" and b: "b \<noteq> []" "list_all is_digit b"
    and w: "is_space w" by (rule two_level_form_D)
  have "\<not> re_match level_h1_num (strip line)"
    unfolding s by (rule digits_then_dot_not_h1[OF a b])
  moreover have "re_match level_h2_num (strip line)"
    using level_h2_num_I[OF a b, of "[w]" r] w unfolding s by simp
  ultimately show ?thesis using assms(2) by (simp add: determine_heading_level_def Let_def)
qed

theorem two_level_numbered_is_H2_witness:
  "re_match two_level_form (strip ''2.1 Methodology'')
   \<and> \<not> 15 < length (strip ''2.1 Methodology'')
   \<and> determine_heading_level ''2.1 Methodology'' = ''H2''"
proof -
  have 1: "re_match two_level_form (strip ''2.1 Methodology'')"
    by (simp add: rx_eval chr_eval py_eval)
  have 2: "\<not> (15 < length (strip ''2.1 Methodology'') \<and> re_match up_pat (strip ''2.1 Methodology''))"
    by (simp add: rx_eval chr_eval py_eval)
  from two_level_numbered_is_H2[OF 1 2] 1 show ?thesis by (simp add: strip_def chr_eval)
qed

text \<open>
  The claim as stated fails: this line matches \<^verbatim>\<open>^\d+\.\d+\s\<close> and gets \<^verbatim>\<open>H1\<close>.
\<close>

theorem two_level_numbered_is_H2_counterexample:
  "re_match two_level_form ''2.1 RESULTS AND DISCUSSION''
   \<and> determine_heading_level ''2.1 RESULTS AND DISCUSSION'' = ''H1''"
  by (simp add: rx_eval chr_eval py_eval)

text \<open>
  Claim C4, as amended. A line that the classifier accepts, whose trimmed form begins
  with three dot-separated digit groups and does not match the all-caps pattern, gets
  \<^verbatim>\<open>H3\<close>. (The proof does not use that the classifier accepts the line.)
\<close>

theorem three_level_numbered_is_H3:
  assumes "is_heading self line" and "re_match three_level_form (strip line)"
    and "\<not> re_match up_pat (strip line)"
  shows "determine_heading_level line = ''H3''"
proof -
  from assms(2) obtain a b c r where s: "strip line = a @ CHR ''.'' # b @ CHR ''.'' # c @ r"
    and a: "a \<noteq> []" "list_all is_digit a" and b: "b \<noteq> []" "list_all is_digit b"
    and c: "c \<noteq> []" "list_all is_digit c" by (rule three_level_form_D)
  have h1: "\<not> re_match level_h1_num (strip line)"
    unfolding s by (rule digits_then_dot_not_h1[OF a b])
  have h2: "\<not> re_match level_h2_num (strip line)"
  proof
    assume "re_match level_h2_num (strip line)"
    then obtain a' b' ws r' where s': "strip line = a' @ CHR ''.'' # b' @ ws @ r'"
      and a': "list_all is_digit a'" and b': "list_all is_digit b'"
      and ws: "ws \<noteq> []" "list_all is_space ws" by (rule level_h2_num_D)
    from s s' have e: "a @ CHR ''.'' # b @ CHR ''.'' # c @ r = a' @ CHR ''.'' # b' @ ws @ r'"
      by simp
    from run_unique[OF a(2) a' dot_not_digit dot_not_digit e]
    have e2: "b @ CHR ''.'' # c @ r = b' @ ws @ r'" by simp
    from ws obtain x xs where x: "ws = x # xs" "is_space x" by (cases ws) auto
    then have nd: "\<not> is_digit x" using digit_not_space by auto
    from e2 x have "b @ CHR ''.'' # c @ r = b' @ x # xs @ r'" by simp
    from run_unique[OF b(2) b' dot_not_digit nd this] have "x = CHR ''.''" by simp
    with x dot_not_space show False by simp
  qed
  have t: "\<not> re_match title_pat (strip line)"
  proof
    assume "re_match title_pat (strip line)"
    then obtain ch t where "strip line = ch # t" "is_upper_az ch" using title_pat_head by blast
    with s a have "is_digit ch" "is_upper_az ch" by (cases a; auto)+
    then show False using digit_not_upper by auto
  qed
  from h1 h2 t assms(3) show ?thesis by (simp add: determine_heading_level_def Let_def)
qed

theorem three_level_numbered_is_H3_witness:
  "is_heading init ''1.1.1 Detail'' \<and> re_match three_level_form (strip ''1.1.1 Detail'')
   \<and> \<not> re_match up_pat (strip ''1.1.1 Detail'')
   \<and> determine_heading_level ''1.1.1 Detail'' = ''H3''"
proof -
  have 1: "is_heading init ''1.1.1 Detail''"
    by (simp add: rx_eval chr_eval py_eval)
  have 2: "re_match three_level_form (strip ''1.1.1 Detail'')"
    by (simp add: rx_eval chr_eval py_eval)
  have 3: "\<not> re_match up_pat (strip ''1.1.1 Detail'')"
    by (simp add: rx_eval chr_eval py_eval)
  from three_level_numbered_is_H3[OF 1 2 3] 1 2 3 show ?thesis by simp
qed

text \<open>
  The claim as stated fails: the classifier accepts this line, it begins with three
  digit groups, and it gets \<^verbatim>\<open>H2\<close> from the all-caps test.
\<close>

theorem three_level_numbered_is_H3_counterexample:
  "is_heading init ''1.1.1 DETAIL'' \<and> re_match three_level_form ''1.1.1 DETAIL''
   \<and> determine_heading_level ''1.1.1 DETAIL'' = ''H2''"
  by (simp add: rx_eval chr_eval py_eval)

section \<open>Heading extraction\<close>

lemma headings_of_lines_sound:
  "h \<in> set (headings_of_lines self n lines) \<Longrightarrow>
   \<exists>line0 \<in> set lines. htext h = strip line0 \<and> is_heading self (strip line0)
      \<and> level h = determine_heading_level (strip line0) \<and> page h = n"
  by (induction lines) (auto simp: Let_def split: if_splits)

lemma extract_headings_sound:
  "h \<in> set (extract_headings self pages_text) \<Longrightarrow>
   \<exists>text n line0. (text, n) \<in> set pages_text \<and> line0 \<in> set (split_nl text)
      \<and> htext h = strip line0 \<and> is_heading self (strip line0)
      \<and> level h = determine_heading_level (strip line0) \<and> page h = n"
proof (induction pages_text)
  case Nil
  then show ?case by simp
next
  case (Cons p pages_text)
  obtain tx n where p: "p = (tx, n)" by (cases p)
  from Cons.prems p consider "h \<in> set (headings_of_lines self n (split_nl tx))"
    | "h \<in> set (extract_headings self pages_text)" by auto
  then show ?case
  proof cases
    case 1
    from headings_of_lines_sound[OF 1] p show ?thesis by auto
  next
    case 2
    from Cons.IH[OF 2] show ?thesis by auto
  qed
qed

lemma example_extract_headings:
  "extract_headings \<lparr>detected_title = Some ''A Study of Outlines''\<rparr> example_pages
     = example_headings"
  by (simp add: example_pages_def example_headings_def rx_eval chr_eval py_eval)

text \<open>
  Claim C10. Every record that \<^verbatim>\<open>extract_headings\<close> produces has a text that is
  trimmed, of 3 to 100 characters, that does not end in one of \<^verbatim>\<open>. , ; ! ?\<close> unless
  it ends in \<^verbatim>\<open>...\<close>, and a level that is \<^verbatim>\<open>H1\<close>, \<^verbatim>\<open>H2\<close> or \<^verbatim>\<open>H3\<close>.
\<close>

theorem heading_records_well_formed:
  assumes "h \<in> set (extract_headings self pages_text)"
  shows "strip (htext h) = htext h \<and> 3 \<le> length (htext h) \<and> length (htext h) \<le> 100
     \<and> \<not> spec_sentence_end (htext h) \<and> level h \<in> {''H1'', ''H2'', ''H3''}"
proof -
  from extract_headings_sound[OF assms] obtain line0 where
    t: "htext h = strip line0" and hd: "is_heading self (strip line0)"
    and l: "level h = determine_heading_level (strip line0)" by auto
  note g = is_heading_guards[OF hd, unfolded strip_strip]
  from g(1) have "3 \<le> length (strip (strip line0))" by (rule not_noise_length)
  then have "3 \<le> length (htext h)" by (simp add: strip_strip t)
  with g t l determine_heading_level_range show ?thesis by (simp add: strip_strip)
qed

theorem heading_records_well_formed_witness:
  "\<lparr>level = ''H1'', htext = ''1. Introduction'', page = 1\<rparr>
      \<in> set (extract_headings \<lparr>detected_title = Some ''A Study of Outlines''\<rparr> example_pages)
   \<and> strip ''1. Introduction'' = ''1. Introduction''
   \<and> \<not> spec_sentence_end ''1. Introduction''"
proof -
  have m: "\<lparr>level = ''H1'', htext = ''1. Introduction'', page = 1\<rparr>
      \<in> set (extract_headings \<lparr>detected_title = Some ''A Study of Outlines''\<rparr> example_pages)"
    by (simp add: example_extract_headings example_headings_def)
  from heading_records_well_formed [OF m] m show ?thesis by simp
qed

section \<open>The Title Resolver\<close>

lemma first_title_line_find:
  "first_title_line lines
     = find (\<lambda>line. line \<noteq> [] \<and> length line > 3 \<and> \<not> is_noise line) (map strip lines)"
  by (induction lines) (simp_all add: Let_def)

lemma find_append_cases:
  "find P (xs @ ys) = (case find P xs of None \<Rightarrow> find P ys | Some x \<Rightarrow> Some x)"
  by (induction xs) simp_all

lemma extract_title_from_content_spec:
  "extract_title_from_content pages_text = spec_content_title pages_text"
proof (induction pages_text)
  case Nil
  then show ?case by (simp add: spec_content_title_def spec_lines_def)
next
  case (Cons p pages_text)
  obtain tx n where p: "p = (tx, n)" by (cases p)
  show ?case
  proof (cases "first_title_line (split_nl tx)")
    case None
    with Cons.IH p show ?thesis
      by (simp add: spec_content_title_def spec_lines_def find_append_cases
          first_title_line_find[symmetric])
  next
    case (Some l)
    with p show ?thesis
      by (simp add: spec_content_title_def spec_lines_def find_append_cases
          first_title_line_find[symmetric])
  qed
qed

lemma spec_content_title_nonempty: "spec_content_title pages_text \<noteq> []"
  by (auto simp: spec_content_title_def split: option.splits dest: find_Some_iff[THEN iffD1])

lemma spec_resolve_title_nonempty: "spec_resolve_title metadata_title pages_text \<noteq> []"
  by (auto simp: spec_resolve_title_def spec_content_title_nonempty split: option.splits)

lemma extract_outline_Inr:
  assumes "fst (extract_outline self pypdf2 pdfminer metadata_title) = Inr out"
  shows "(pypdf2 \<noteq> [] \<or> pdfminer \<noteq> [])
    \<and> title out = spec_resolve_title metadata_title (if pypdf2 = [] then pdfminer else pypdf2)
    \<and> outline out = extract_headings (self\<lparr>detected_title := Some (title out)\<rparr>)
         (if pypdf2 = [] then pdfminer else pypdf2)"
  using assms
  by (auto simp: extract_outline_def Let_def extract_title_from_metadata_def
      spec_resolve_title_def extract_title_from_content_spec strip_Nil
      split: if_splits option.splits)

lemma example_content_title:
  "extract_title_from_content example_pages = ''A Study of Outlines''"
  by (simp add: example_pages_def rx_eval chr_eval py_eval)

lemma example_outline:
  "fst (extract_outline init example_pages [] None)
     = Inr \<lparr>title = ''A Study of Outlines'', outline = example_headings\<rparr>"
proof -
  have "example_pages \<noteq> []" by (simp add: example_pages_def)
  then show ?thesis
    by (simp add: extract_outline_def extract_title_from_metadata_def Let_def init_def
        example_content_title example_extract_headings)
qed

lemma example_outline_metadata:
  "fst (extract_outline init [] example_pages (Some '' Annual Report ''))
     = Inr \<lparr>title = ''Annual Report'',
            outline = extract_headings \<lparr>detected_title = Some ''Annual Report''\<rparr> example_pages\<rparr>"
proof -
  have "example_pages \<noteq> []" by (simp add: example_pages_def)
  moreover have "strip '' Annual Report '' = ''Annual Report''"
    by (simp add: strip_def chr_eval)
  ultimately show ?thesis
    by (simp add: extract_outline_def extract_title_from_metadata_def Let_def init_def)
qed

text \<open>
  Claim C7. In every run that returns an outline, the title is the metadata title,
  trimmed, when there is one and its trimmed form is longer than 2 characters;
  otherwise the first trimmed line, pages in order and lines in order, that is longer
  than 3 characters and not noise; otherwise \<^verbatim>\<open>Untitled Document\<close>. The pages are
  those of the primary extraction, or of the fallback when the primary gives none.
\<close>

theorem title_resolution_priority:
  assumes "fst (extract_outline self pypdf2 pdfminer metadata_title) = Inr out"
  shows "title out = spec_resolve_title metadata_title (if pypdf2 = [] then pdfminer else pypdf2)"
  using extract_outline_Inr[OF assms] by simp

theorem title_resolution_priority_witness:
  "fst (extract_outline init [] example_pages (Some '' Annual Report ''))
     = Inr \<lparr>title = ''Annual Report'',
            outline = extract_headings \<lparr>detected_title = Some ''Annual Report''\<rparr> example_pages\<rparr>
   \<and> spec_resolve_title (Some '' Annual Report '') example_pages = ''Annual Report''
   \<and> spec_resolve_title None example_pages = ''A Study of Outlines''"
  using title_resolution_priority [OF example_outline_metadata]
    title_resolution_priority [OF example_outline] example_outline_metadata
  by simp

text \<open>
  Claim C2. In every run that returns an outline, no heading record has the resolved
  title as its text.
\<close>

theorem title_never_a_heading:
  assumes "fst (extract_outline self pypdf2 pdfminer metadata_title) = Inr out"
  shows "\<forall>h \<in> set (outline out). htext h \<noteq> title out"
proof
  fix h assume h: "h \<in> set (outline out)"
  let ?self = "self\<lparr>detected_title := Some (title out)\<rparr>"
  from extract_outline_Inr[OF assms] h
  have "h \<in> set (extract_headings ?self (if pypdf2 = [] then pdfminer else pypdf2))"
    and ne: "title out \<noteq> []" by (auto simp: spec_resolve_title_nonempty)
  from extract_headings_sound[OF this(1)] obtain line0 where
    t: "htext h = strip line0" and hd: "is_heading ?self (strip line0)" by auto
  from is_heading_guards(5)[OF hd, of "title out"] ne have "strip (strip line0) \<noteq> title out"
    by simp
  with t show "htext h \<noteq> title out" by (simp add: strip_strip)
qed

theorem title_never_a_heading_witness:
  "fst (extract_outline init example_pages [] None)
     = Inr \<lparr>title = ''A Study of Outlines'', outline = example_headings\<rparr>
   \<and> list_all (\<lambda>h. htext h \<noteq> ''A Study of Outlines'') example_headings"
  using title_never_a_heading [OF example_outline] example_outline
  by (simp add: list_all_iff)

section \<open>The Outline Builder\<close>

lemma is_heading_title_only:
  "detected_title self1 = detected_title self2 \<Longrightarrow> is_heading self1 line = is_heading self2 line"
  by (simp only: is_heading_def)

lemma headings_of_lines_title_only:
  "detected_title self1 = detected_title self2 \<Longrightarrow>
   headings_of_lines self1 n lines = headings_of_lines self2 n lines"
  by (induction lines) (simp_all add: is_heading_title_only[of self1 self2] Let_def)

lemma extract_headings_title_only:
  "detected_title self1 = detected_title self2 \<Longrightarrow>
   extract_headings self1 pages_text = extract_headings self2 pages_text"
  by (induction pages_text) (auto simp: headings_of_lines_title_only[of self1 self2])

text \<open>
  Claim C8. \<^verbatim>\<open>extract_outline\<close> raises exactly when the primary and the fallback
  extraction both give the empty list, and it then raises the \<^verbatim>\<open>ValueError\<close>
  ``Could not extract text from PDF''; when one of them gives a page, it returns an
  outline. The result is one or the other: no outline comes with the failure.
\<close>

theorem extract_outline_fails_iff_both_empty:
  "(\<exists>e. fst (extract_outline self pypdf2 pdfminer metadata_title) = Inl e)
     = (pypdf2 = [] \<and> pdfminer = [])
   \<and> (\<exists>out. fst (extract_outline self pypdf2 pdfminer metadata_title) = Inr out)
     = (pypdf2 \<noteq> [] \<or> pdfminer \<noteq> [])
   \<and> (fst (extract_outline self [] [] metadata_title)
        = Inl (ValueError ''Could not extract text from PDF''))"
  by (auto simp: extract_outline_def Let_def)

theorem extract_outline_fails_iff_both_empty_witness:
  "(\<exists>e. fst (extract_outline init [] [] None) = Inl e)
   \<and> (\<exists>out. fst (extract_outline init [] [(''1. Introduction'', 1)] None) = Inr out)"
  using extract_outline_fails_iff_both_empty [of init "[]" "[]" None]
    extract_outline_fails_iff_both_empty [of init "[]" "[(''1. Introduction'', 1)]" None]
  by simp

text \<open>
  Claim C9. The result of \<^verbatim>\<open>extract_outline\<close> on given pages and metadata does not
  depend on the \<^verbatim>\<open>_detected_title\<close> the extractor holds when the call starts: two
  extractors give the same result, and so does a second run on the extractor that
  the first run leaves.
\<close>

theorem extract_outline_independent_of_previous_title:
  "fst (extract_outline self1 pypdf2 pdfminer metadata_title)
     = fst (extract_outline self2 pypdf2 pdfminer metadata_title)
   \<and> fst (extract_outline (snd (extract_outline self1 pypdf2 pdfminer metadata_title))
            pypdf2 pdfminer metadata_title)
     = fst (extract_outline self1 pypdf2 pdfminer metadata_title)"
proof -
  have *: "fst (extract_outline a pypdf2 pdfminer metadata_title)
         = fst (extract_outline b pypdf2 pdfminer metadata_title)" for a b
    by (simp add: extract_outline_def Let_def
        extract_headings_title_only[of "a\<lparr>detected_title := Some t\<rparr>" "b\<lparr>detected_title := Some t\<rparr>" for t])
  show ?thesis using * by blast
qed

end
